theory Spec2Isabelle
  imports Complex_Main
begin

section \<open>Numbers, arrays and errors\<close>

text \<open>
  The depth-map routine \<open>depth_map_snr\<close> of the notebook
  \<open>tutorials/object_gcr_2_lensing_cuts.ipynb\<close> works on one-dimensional numpy arrays of
  floats. A float is modelled as either NaN or a real number: rounding and the infinities
  are left out, NaN is kept because the routine tests for it. Arrays are lists. Every
  Python exception is a value \<open>Inl e\<close> of the result type; a boolean index that is not
  empty and whose length is not the array's raises, as it does since numpy 1.13.
\<close>

datatype fl = NaN | Fin real

datatype error = ValueError | IndexError

fun isnan :: "fl \<Rightarrow> bool" where
  "isnan NaN = True"
| "isnan (Fin r) = False"

fun fl_map :: "(real \<Rightarrow> real) \<Rightarrow> fl \<Rightarrow> fl" where
  \<comment> \<open>arithmetic of one array element with scalars: NaN propagates\<close>
  "fl_map f NaN = NaN"
| "fl_map f (Fin r) = Fin (f r)"

definition logical_not :: "bool list \<Rightarrow> bool list" where
  "logical_not a = map Not a"

definition logical_or :: "bool list \<Rightarrow> bool list \<Rightarrow> error + bool list" where
  \<comment> \<open>numpy broadcasting of two 1-D arrays: equal lengths, or one of length 1\<close>
  "logical_or a b =
     (if length a = length b then Inr (map (\<lambda>(x, y). x \<or> y) (zip a b))
      else if length a = 1 then Inr (map (\<lambda>y. hd a \<or> y) b)
      else if length b = 1 then Inr (map (\<lambda>x. x \<or> hd b) a)
      else Inl ValueError)"

definition bool_index :: "'a list \<Rightarrow> bool list \<Rightarrow> error + 'a list" where
  \<comment> \<open>\<open>a[sel]\<close> for a boolean array \<open>sel\<close>: a fresh array of the selected elements.
      numpy takes the empty \<open>sel\<close> on any array and selects nothing; otherwise a \<open>sel\<close>
      whose length is not the array's raises IndexError\<close>
  "bool_index a sel =
     (if sel = [] then Inr []
      else if length sel \<noteq> length a then Inl IndexError
      else Inr (map fst (filter snd (zip a sel))))"

definition count_nonzero :: "bool list \<Rightarrow> nat" where
  "count_nonzero sel = length (filter id sel)"

definition unique :: "int list \<Rightarrow> int list" where
  \<comment> \<open>\<open>np.unique\<close>: the distinct values, sorted\<close>
  "unique xs = sort (remdups xs)"

definition zeros :: "nat \<Rightarrow> real list" where
  "zeros n = replicate n 0"

definition linspace :: "real \<Rightarrow> real \<Rightarrow> nat \<Rightarrow> real list" where
  \<comment> \<open>\<open>num\<close> evenly spaced samples from \<open>start\<close> to \<open>stop\<close>, both included\<close>
  "linspace start stop num =
     map (\<lambda>i. start + real i * ((stop - start) / real (num - 1))) [0..<num]"

definition setitem :: "real list \<Rightarrow> int \<Rightarrow> real \<Rightarrow> error + real list" where
  \<comment> \<open>\<open>a[i] = v\<close>: a negative index counts from the end, out of range raises\<close>
  "setitem a i v =
     (let n = int (length a); j = (if i < 0 then n + i else i)
      in if 0 \<le> j \<and> j < n then Inr (a[nat j := v]) else Inl IndexError)"

fun fl_ge :: "fl \<Rightarrow> fl \<Rightarrow> bool" where
  \<comment> \<open>IEEE \<open>>=\<close>: false as soon as one side is NaN\<close>
  "fl_ge (Fin x) (Fin y) = (y \<le> x)"
| "fl_ge _ _ = False"

fun argmin_scan :: "fl \<Rightarrow> nat \<Rightarrow> nat \<Rightarrow> fl list \<Rightarrow> nat" where
  \<comment> \<open>the scan of numpy's argmin: \<open>mp\<close> is the minimum so far, at index \<open>ind\<close>; \<open>i\<close> is
      the index of the next element; a NaN ends the scan\<close>
  "argmin_scan mp ind i [] = ind"
| "argmin_scan mp ind i (x # xs) =
     (if isnan mp then ind
      else if \<not> fl_ge x mp then argmin_scan x i (Suc i) xs
      else argmin_scan mp ind (Suc i) xs)"

definition argmin :: "fl list \<Rightarrow> error + nat" where
  "argmin xs = (case xs of [] \<Rightarrow> Inl ValueError | x # rest \<Rightarrow> Inr (argmin_scan x 0 1 rest))"

definition median :: "real list \<Rightarrow> real" where
  \<comment> \<open>the median of a sorted, non-empty list\<close>
  "median ys =
     (let n = length ys
      in if odd n then ys ! (n div 2) else (ys ! (n div 2 - 1) + ys ! (n div 2)) / 2)"

definition nanmedian :: "fl list \<Rightarrow> fl" where
  \<comment> \<open>\<open>np.nanmedian\<close>: the median of the entries that are not NaN, NaN when there is none\<close>
  "nanmedian xs =
     (let ys = sort (concat (map (\<lambda>x. case x of NaN \<Rightarrow> [] | Fin r \<Rightarrow> [r]) xs))
      in if ys = [] then NaN else Fin (median ys))"

section \<open>The binning helper\<close>

text \<open>
  Modelled from the spec: \<open>binned_statistic\<close> of \<open>utils/cic.py\<close>, which the notebook
  imports and whose source is not at hand. The (x, value) pairs are partitioned into
  \<open>nbins\<close> fixed-width bins over the half-open range, and \<open>func\<close> is applied to the values
  of each bin; a pair whose \<open>x\<close> is NaN or outside the range is in no bin. The spec names
  no failure of the binning.
\<close>

definition in_bin :: "real \<times> real \<Rightarrow> nat \<Rightarrow> nat \<Rightarrow> fl \<Rightarrow> bool" where
  \<comment> \<open>Modelled from the spec: bin \<open>i\<close> of the \<open>nbins\<close> fixed-width bins that partition
      the half-open range\<close>
  "in_bin rng nbins i x =
     (case x of NaN \<Rightarrow> False
      | Fin m \<Rightarrow>
          (let w = (snd rng - fst rng) / real nbins
           in fst rng + real i * w \<le> m \<and> m < fst rng + real (Suc i) * w))"

definition binned_statistic ::
  "fl list \<Rightarrow> fl list \<Rightarrow> (fl list \<Rightarrow> fl) \<Rightarrow> nat \<Rightarrow> real \<times> real \<Rightarrow> error + fl list" where
  \<comment> \<open>Modelled from the spec: \<open>func\<close> of the values of each bin, bin by bin\<close>
  "binned_statistic x vals func nbins rng =
     Inr (map (\<lambda>i. func (map snd (filter (\<lambda>(m, v). in_bin rng nbins i m) (zip x vals))))
            [0..<nbins])"

section \<open>The depth map\<close>

text \<open>
  \<open>hp.ang2pix\<close> (healpy) is an external library: it is the parameter \<open>ang2pix\<close>, taking
  nside and the arrays of colatitudes and longitudes, and returning the array of pixel
  indices or raising. The binning helper is the parameter \<open>binstat\<close>, so that whatever is
  proved of \<open>depth_map_snr\<close> for every \<open>binstat\<close> does not depend on the model above.
  \<open>snr_threshold\<close> is a real number and \<open>nside\<close> a Python integer.

  The routine is cut at its assignments: \<open>good\<close> and \<open>pix_nums\<close> are the two arrays of
  these names, \<open>pixel_depth\<close> is the body of the loop over \<open>np.unique(pix_nums)\<close>, which
  \<open>pixel_loop\<close> runs on the map of zeros. The constants \<open>np.pi\<close> and the bin centers are
  real numbers.
\<close>

type_synonym pixelization = "int \<Rightarrow> fl list \<Rightarrow> fl list \<Rightarrow> error + int list"

type_synonym binning =
  "fl list \<Rightarrow> fl list \<Rightarrow> (fl list \<Rightarrow> fl) \<Rightarrow> nat \<Rightarrow> real \<times> real \<Rightarrow> error + fl list"

definition good :: "fl list \<Rightarrow> fl list \<Rightarrow> error + bool list" where
  "good ra dec = logical_or (logical_not (map isnan ra)) (logical_not (map isnan dec))"

definition pix_nums :: "pixelization \<Rightarrow> int \<Rightarrow> fl list \<Rightarrow> fl list \<Rightarrow> error + int list" where
  "pix_nums ang2pix nside ra dec =
     (case good ra dec of Inl e \<Rightarrow> Inl e | Inr g \<Rightarrow>
      case bool_index dec g of Inl e \<Rightarrow> Inl e | Inr dec_g \<Rightarrow>
      case bool_index ra g of Inl e \<Rightarrow> Inl e | Inr ra_g \<Rightarrow>
        ang2pix nside (map (fl_map (\<lambda>d. pi / 2 - d * pi / 180)) dec_g)
                      (map (fl_map (\<lambda>r. r * pi / 180)) ra_g))"

definition bin_centers :: "real list" where
  \<comment> \<open>\<open>np.linspace(22+6/30., 28-6/30., 30.)\<close>; the float count 30. is read as 30, as the
      numpy of the notebook's time did\<close>
  "bin_centers = linspace (22 + 6 / 30) (28 - 6 / 30) 30"

definition pixel_depth ::
  "binning \<Rightarrow> int list \<Rightarrow> fl list \<Rightarrow> fl list \<Rightarrow> real \<Rightarrow> int \<Rightarrow> error + real" where
  \<comment> \<open>the body of the loop over pixels: the value written to \<open>map_out[px]\<close>\<close>
  "pixel_depth binstat pixs mags snr snr_threshold px =
     (let mask = map (\<lambda>p. px = p) pixs
      in if count_nonzero mask > 0 then
           (case bool_index mags mask of Inl e \<Rightarrow> Inl e | Inr mags_m \<Rightarrow>
            case bool_index snr mask of Inl e \<Rightarrow> Inl e | Inr snr_m \<Rightarrow>
            case binstat mags_m snr_m nanmedian 30 (22, 28) of Inl e \<Rightarrow> Inl e
            | Inr median_snr \<Rightarrow>
               (let mask2 = map (\<lambda>v. isnan v = False) median_snr
                in if count_nonzero mask2 > 0 then
                     (case bool_index bin_centers mask2 of Inl e \<Rightarrow> Inl e | Inr bc \<Rightarrow>
                      case bool_index median_snr mask2 of Inl e \<Rightarrow> Inl e | Inr ms \<Rightarrow>
                      case argmin (map (fl_map (\<lambda>v. \<bar>v - snr_threshold\<bar>)) ms) of
                        Inl e \<Rightarrow> Inl e
                      | Inr k \<Rightarrow> Inr (bc ! k))
                   else Inr 0))
         else Inr 0)"

fun pixel_loop :: "(int \<Rightarrow> error + real) \<Rightarrow> int list \<Rightarrow> real list \<Rightarrow> error + real list" where
  "pixel_loop body [] map_out = Inr map_out"
| "pixel_loop body (px # pxs) map_out =
     (case body px of Inl e \<Rightarrow> Inl e | Inr depth \<Rightarrow>
      case setitem map_out px depth of Inl e \<Rightarrow> Inl e
      | Inr map_out' \<Rightarrow> pixel_loop body pxs map_out')"

definition depth_map_snr ::
  "pixelization \<Rightarrow> binning \<Rightarrow> fl list \<Rightarrow> fl list \<Rightarrow> fl list \<Rightarrow> fl list \<Rightarrow> real \<Rightarrow> int
     \<Rightarrow> error + real list" where
  "depth_map_snr ang2pix binstat ra dec mags snr snr_threshold nside =
     (case pix_nums ang2pix nside ra dec of Inl e \<Rightarrow> Inl e | Inr pixs \<Rightarrow>
        pixel_loop (pixel_depth binstat pixs mags snr snr_threshold) (unique pixs)
          (zeros (nat (12 * nside ^ 2))))"

definition ang2pix_const :: "int \<Rightarrow> pixelization" where
  \<comment> \<open>a pixelization for concrete evaluations: it rejects an nside that is not positive,
      as healpy does, and puts every direction in pixel \<open>p\<close>\<close>
  "ang2pix_const p nside theta phi =
     (if nside \<le> 0 then Inl ValueError else Inr (map (\<lambda>t. p) theta))"

section \<open>Facts about the array operations\<close>

lemma length_linspace: "length (linspace a b n) = n"
  by (simp add: linspace_def)

lemma nth_linspace: "i < n \<Longrightarrow> linspace a b n ! i = a + real i * ((b - a) / real (n - 1))"
  by (simp add: linspace_def)

lemma length_bin_centers: "length bin_centers = 30"
  by (simp add: bin_centers_def length_linspace)

lemma nth_bin_centers: "i < 30 \<Longrightarrow> bin_centers ! i = 111 / 5 + real i * (28 / 145)"
  by (simp add: bin_centers_def nth_linspace)

lemma bin_centers_mono: "i < j \<Longrightarrow> j < 30 \<Longrightarrow> bin_centers ! i < bin_centers ! j"
  by (simp add: nth_bin_centers)

lemma zip_as_map_nth:
  "length a = length b \<Longrightarrow> zip a b = map (\<lambda>i. (a ! i, b ! i)) [0..<length a]"
  by (rule nth_equalityI) simp_all

lemma bool_index_nth:
  assumes "bool_index a sel = Inr r" and "sel \<noteq> []"
  shows "length sel = length a \<and> r = map ((!) a) (filter ((!) sel) [0..<length a])"
proof -
  from assms have len: "length sel = length a" and r: "r = map fst (filter snd (zip a sel))"
    by (auto simp: bool_index_def split: if_splits)
  have "zip a sel = map (\<lambda>i. (a ! i, sel ! i)) [0..<length a]"
    using len by (simp add: zip_as_map_nth)
  then have "r = map ((!) a) (filter ((!) sel) [0..<length a])"
    unfolding r by (simp add: filter_map comp_def)
  with len show ?thesis by simp
qed

lemma bool_index_same_length:
  "length sel = length a \<Longrightarrow> bool_index a sel = Inr (map fst (filter snd (zip a sel)))"
  by (simp add: bool_index_def)

lemma bool_index_longer:
  "sel \<noteq> [] \<Longrightarrow> length sel \<noteq> length a \<Longrightarrow> bool_index a sel = Inl IndexError"
  by (simp add: bool_index_def)

lemma selected_fst:
  "length xs = length ys \<Longrightarrow>
     map fst (filter snd (zip xs (map P (zip xs ys)))) = map fst (filter P (zip xs ys))"
  by (induction xs ys rule: list_induct2) auto

lemma selected_snd:
  "length xs = length ys \<Longrightarrow>
     map fst (filter snd (zip ys (map P (zip xs ys)))) = map snd (filter P (zip xs ys))"
  by (induction xs ys rule: list_induct2) auto

lemma bool_index_fst:
  "length xs = length ys \<Longrightarrow>
     bool_index xs (map P (zip xs ys)) = Inr (map fst (filter P (zip xs ys)))"
  by (simp add: bool_index_same_length selected_fst)

lemma bool_index_snd:
  "length xs = length ys \<Longrightarrow>
     bool_index ys (map P (zip xs ys)) = Inr (map snd (filter P (zip xs ys)))"
  by (simp add: bool_index_same_length selected_snd)

lemma good_equal_length:
  "length ra = length dec \<Longrightarrow>
     good ra dec = Inr (map (\<lambda>(r, d). \<not> isnan r \<or> \<not> isnan d) (zip ra dec))"
  by (induction ra dec rule: list_induct2) (auto simp: good_def logical_or_def logical_not_def)

lemma count_nonzero_pos: "0 < count_nonzero sel \<longleftrightarrow> (\<exists>b\<in>set sel. b)"
  by (auto simp: count_nonzero_def filter_empty_conv)

lemma set_unique: "set (unique xs) = set xs"
  by (simp add: unique_def)

lemma distinct_unique: "distinct (unique xs)"
  by (simp add: unique_def)

lemma argmin_scan_spec:
  assumes "\<forall>x\<in>set xs. \<not> isnan x"
  shows "(argmin_scan (Fin m) ind i xs = ind \<and> (\<forall>w. Fin w \<in> set xs \<longrightarrow> m \<le> w)) \<or>
         (\<exists>j<length xs. \<exists>u. argmin_scan (Fin m) ind i xs = i + j \<and> xs ! j = Fin u \<and> u < m \<and>
            (\<forall>j'<length xs. \<forall>w. xs ! j' = Fin w \<longrightarrow> u \<le> w \<and> (j' < j \<longrightarrow> u < w)))"
  using assms
proof (induction xs arbitrary: m ind i)
  case Nil
  then show ?case by simp
next
  case (Cons x xs)
  then obtain a where x: "x = Fin a" by (cases x) auto
  from Cons.prems have fin: "\<forall>x\<in>set xs. \<not> isnan x" by simp
  show ?case
  proof (cases "a < m")
    case True
    then have step: "argmin_scan (Fin m) ind i (x # xs) = argmin_scan (Fin a) i (Suc i) xs"
      by (simp add: x)
    from Cons.IH [OF fin, of a i "Suc i"] show ?thesis
    proof
      assume h: "argmin_scan (Fin a) i (Suc i) xs = i \<and> (\<forall>w. Fin w \<in> set xs \<longrightarrow> a \<le> w)"
      have "\<forall>j'<length (x # xs). \<forall>w. (x # xs) ! j' = Fin w \<longrightarrow> a \<le> w \<and> (j' < 0 \<longrightarrow> a < w)"
      proof (intro allI impI)
        fix j' w assume "j' < length (x # xs)" "(x # xs) ! j' = Fin w"
        then show "a \<le> w \<and> (j' < 0 \<longrightarrow> a < w)"
          using h x by (cases j') (auto dest: nth_mem)
      qed
      then show ?thesis using step h True x
        by (intro disjI2 exI [of _ 0]) auto
    next
      assume "\<exists>j<length xs. \<exists>u. argmin_scan (Fin a) i (Suc i) xs = Suc i + j \<and> xs ! j = Fin u \<and>
                u < a \<and> (\<forall>j'<length xs. \<forall>w. xs ! j' = Fin w \<longrightarrow> u \<le> w \<and> (j' < j \<longrightarrow> u < w))"
      then obtain j u where j: "j < length xs" "argmin_scan (Fin a) i (Suc i) xs = Suc i + j"
        "xs ! j = Fin u" "u < a"
        and mn: "\<forall>j'<length xs. \<forall>w. xs ! j' = Fin w \<longrightarrow> u \<le> w \<and> (j' < j \<longrightarrow> u < w)"
        by blast
      have "\<forall>j'<length (x # xs). \<forall>w. (x # xs) ! j' = Fin w \<longrightarrow> u \<le> w \<and> (j' < Suc j \<longrightarrow> u < w)"
      proof (intro allI impI)
        fix j' w assume "j' < length (x # xs)" "(x # xs) ! j' = Fin w"
        then show "u \<le> w \<and> (j' < Suc j \<longrightarrow> u < w)"
          using mn x j(4) by (cases j') auto
      qed
      then show ?thesis using step j True
        by (intro disjI2 exI [of _ "Suc j"]) auto
    qed
  next
    case False
    then have step: "argmin_scan (Fin m) ind i (x # xs) = argmin_scan (Fin m) ind (Suc i) xs"
      by (simp add: x)
    from Cons.IH [OF fin, of m ind "Suc i"] show ?thesis
    proof
      assume "argmin_scan (Fin m) ind (Suc i) xs = ind \<and> (\<forall>w. Fin w \<in> set xs \<longrightarrow> m \<le> w)"
      then show ?thesis using step False x by auto
    next
      assume "\<exists>j<length xs. \<exists>u. argmin_scan (Fin m) ind (Suc i) xs = Suc i + j \<and> xs ! j = Fin u \<and>
                u < m \<and> (\<forall>j'<length xs. \<forall>w. xs ! j' = Fin w \<longrightarrow> u \<le> w \<and> (j' < j \<longrightarrow> u < w))"
      then obtain j u where j: "j < length xs" "argmin_scan (Fin m) ind (Suc i) xs = Suc i + j"
        "xs ! j = Fin u" "u < m"
        and mn: "\<forall>j'<length xs. \<forall>w. xs ! j' = Fin w \<longrightarrow> u \<le> w \<and> (j' < j \<longrightarrow> u < w)"
        by blast
      have "\<forall>j'<length (x # xs). \<forall>w. (x # xs) ! j' = Fin w \<longrightarrow> u \<le> w \<and> (j' < Suc j \<longrightarrow> u < w)"
      proof (intro allI impI)
        fix j' w assume "j' < length (x # xs)" "(x # xs) ! j' = Fin w"
        then show "u \<le> w \<and> (j' < Suc j \<longrightarrow> u < w)"
          using mn x j(4) False by (cases j') auto
      qed
      then show ?thesis using step j
        by (intro disjI2 exI [of _ "Suc j"]) auto
    qed
  qed
qed

lemma argmin_spec:
  assumes "xs \<noteq> []" and "\<forall>x\<in>set xs. \<not> isnan x"
  shows "\<exists>k u. argmin xs = Inr k \<and> k < length xs \<and> xs ! k = Fin u \<and>
           (\<forall>j<length xs. \<forall>w. xs ! j = Fin w \<longrightarrow> u \<le> w \<and> (j < k \<longrightarrow> u < w))"
proof -
  from assms obtain a rest where xs: "xs = Fin a # rest"
    by (cases xs; cases "hd xs") auto
  with assms have fin: "\<forall>x\<in>set rest. \<not> isnan x" by simp
  have am: "argmin xs = Inr (argmin_scan (Fin a) 0 1 rest)"
    by (simp add: argmin_def xs)
  from argmin_scan_spec [OF fin, of a 0 1] show ?thesis
  proof
    assume h: "argmin_scan (Fin a) 0 1 rest = 0 \<and> (\<forall>w. Fin w \<in> set rest \<longrightarrow> a \<le> w)"
    have "\<forall>j<length xs. \<forall>w. xs ! j = Fin w \<longrightarrow> a \<le> w \<and> (j < 0 \<longrightarrow> a < w)"
    proof (intro allI impI)
      fix j w assume "j < length xs" "xs ! j = Fin w"
      then show "a \<le> w \<and> (j < 0 \<longrightarrow> a < w)"
        using h xs by (cases j) (auto dest: nth_mem)
    qed
    then show ?thesis using am h xs by (intro exI [of _ 0] exI [of _ a]) auto
  next
    assume "\<exists>j<length rest. \<exists>u. argmin_scan (Fin a) 0 1 rest = 1 + j \<and> rest ! j = Fin u \<and>
              u < a \<and> (\<forall>j'<length rest. \<forall>w. rest ! j' = Fin w \<longrightarrow> u \<le> w \<and> (j' < j \<longrightarrow> u < w))"
    then obtain j u where j: "j < length rest" "argmin_scan (Fin a) 0 1 rest = 1 + j"
      "rest ! j = Fin u" "u < a"
      and mn: "\<forall>j'<length rest. \<forall>w. rest ! j' = Fin w \<longrightarrow> u \<le> w \<and> (j' < j \<longrightarrow> u < w)"
      by blast
    have "\<forall>j'<length xs. \<forall>w. xs ! j' = Fin w \<longrightarrow> u \<le> w \<and> (j' < Suc j \<longrightarrow> u < w)"
    proof (intro allI impI)
      fix j' w assume "j' < length xs" "xs ! j' = Fin w"
      then show "u \<le> w \<and> (j' < Suc j \<longrightarrow> u < w)"
        using mn xs j(4) by (cases j') auto
    qed
    then show ?thesis using am j xs by (intro exI [of _ "Suc j"] exI [of _ u]) auto
  qed
qed

lemma argmin_returns: "xs \<noteq> [] \<Longrightarrow> \<exists>k. argmin xs = Inr k"
  by (cases xs) (simp_all add: argmin_def)






lemma nanmedian_single: "nanmedian [Fin s] = Fin s"
  by (simp add: nanmedian_def median_def)

lemma nanmedian_none: "nanmedian [] = NaN"
  by (simp add: nanmedian_def)

section \<open>Facts about the binning helper\<close>




lemma in_bin_unique:
  assumes "in_bin (22, 28) 30 i x" and "in_bin (22, 28) 30 j x"
  shows "i = j"
proof -
  from assms obtain m where x: "x = Fin m" by (cases x) (auto simp: in_bin_def)
  from assms x have i: "22 + real i / 5 \<le> m" "m < 22 + real (Suc i) / 5"
    and j: "22 + real j / 5 \<le> m" "m < 22 + real (Suc j) / 5"
    by (simp_all add: in_bin_def)
  from i(1) j(2) have "real i / 5 < real (Suc j) / 5" by linarith
  then have "i < Suc j" by simp
  moreover from j(1) i(2) have "real j / 5 < real (Suc i) / 5" by linarith
  then have "j < Suc i" by simp
  ultimately show ?thesis by simp
qed

lemma binned_statistic_single:
  "binned_statistic [x] [Fin s] nanmedian 30 (22, 28) =
     Inr (map (\<lambda>j. if in_bin (22, 28) 30 j x then Fin s else NaN) [0..<30])"
  unfolding binned_statistic_def
  by (simp add: nanmedian_single nanmedian_none)

section \<open>Facts about the body of the loop\<close>

lemma pixel_depth_rows:
  assumes "pixel_depth binstat pixs mags snr thr px = Inr d" and "px \<in> set pixs"
  shows "\<exists>mags_m snr_m median_snr.
           bool_index mags (map (\<lambda>p. px = p) pixs) = Inr mags_m \<and>
           bool_index snr (map (\<lambda>p. px = p) pixs) = Inr snr_m \<and>
           binstat mags_m snr_m nanmedian 30 (22, 28) = Inr median_snr"
proof -
  from assms(2) have c1: "0 < count_nonzero (map (\<lambda>p. px = p) pixs)"
    by (auto simp: count_nonzero_pos)
  obtain mags_m where mm: "bool_index mags (map (\<lambda>p. px = p) pixs) = Inr mags_m"
    using assms(1) c1
    by (cases "bool_index mags (map (\<lambda>p. px = p) pixs)") (simp_all add: pixel_depth_def)
  obtain snr_m where sm: "bool_index snr (map (\<lambda>p. px = p) pixs) = Inr snr_m"
    using assms(1) c1 mm
    by (cases "bool_index snr (map (\<lambda>p. px = p) pixs)") (simp_all add: pixel_depth_def)
  obtain median_snr where "binstat mags_m snr_m nanmedian 30 (22, 28) = Inr median_snr"
    using assms(1) c1 mm sm
    by (cases "binstat mags_m snr_m nanmedian 30 (22, 28)") (simp_all add: pixel_depth_def)
  with mm sm show ?thesis by blast
qed

lemma pixel_depth_unfold:
  assumes "px \<in> set pixs"
    and "bool_index mags (map (\<lambda>p. px = p) pixs) = Inr mags_m"
    and "bool_index snr (map (\<lambda>p. px = p) pixs) = Inr snr_m"
    and "binstat mags_m snr_m nanmedian 30 (22, 28) = Inr median_snr"
    and "mask2 = map (\<lambda>v. isnan v = False) median_snr"
    and "g = fl_map (\<lambda>v. \<bar>v - thr\<bar>)"
  shows "pixel_depth binstat pixs mags snr thr px =
           (if 0 < count_nonzero mask2 then
              (case bool_index bin_centers mask2 of Inl e \<Rightarrow> Inl e
               | Inr bc \<Rightarrow>
                  (case bool_index median_snr mask2 of Inl e \<Rightarrow> Inl e
                   | Inr ms \<Rightarrow>
                      (case argmin (map g ms) of Inl e \<Rightarrow> Inl e | Inr k \<Rightarrow> Inr (bc ! k))))
            else Inr 0)"
proof -
  from assms(1) have c1: "0 < count_nonzero (map (\<lambda>p. px = p) pixs)"
    by (auto simp: count_nonzero_pos)
  show ?thesis
    unfolding pixel_depth_def Let_def assms(5,6)
    by (simp only: c1 assms(2-4) if_True sum.case)
qed

lemma pixel_depth_undefined:
  assumes "pixel_depth binstat pixs mags snr thr px = Inr d"
    and px: "px \<in> set pixs"
    and "bool_index mags (map (\<lambda>p. px = p) pixs) = Inr mags_m"
    and "bool_index snr (map (\<lambda>p. px = p) pixs) = Inr snr_m"
    and "binstat mags_m snr_m nanmedian 30 (22, 28) = Inr median_snr"
    and "\<forall>v\<in>set median_snr. isnan v"
  shows "d = 0"
proof -
  define mask2 where "mask2 = map (\<lambda>v. isnan v = False) median_snr"
  from assms(6) have "\<not> 0 < count_nonzero mask2"
    by (auto simp: count_nonzero_pos mask2_def)
  with assms(1) pixel_depth_unfold [where binstat = binstat, OF px assms(3-5) mask2_def refl]
  show ?thesis
    by simp
qed

lemma pixel_depth_defined:
  assumes d: "pixel_depth binstat pixs mags snr thr px = Inr d"
    and px: "px \<in> set pixs"
    and mm: "bool_index mags (map (\<lambda>p. px = p) pixs) = Inr mags_m"
    and sm: "bool_index snr (map (\<lambda>p. px = p) pixs) = Inr snr_m"
    and med: "binstat mags_m snr_m nanmedian 30 (22, 28) = Inr median_snr"
    and some: "\<exists>v\<in>set median_snr. \<not> isnan v"
  shows "length median_snr = 30 \<and>
         (\<exists>i<30. \<exists>v. median_snr ! i = Fin v \<and> d = bin_centers ! i \<and>
            (\<forall>j<30. \<forall>w. median_snr ! j = Fin w \<longrightarrow>
               \<bar>v - thr\<bar> \<le> \<bar>w - thr\<bar> \<and> (j < i \<longrightarrow> \<bar>v - thr\<bar> < \<bar>w - thr\<bar>)))"
proof -
  define mask2 where "mask2 = map (\<lambda>v. isnan v = False) median_snr"
  define g where "g = fl_map (\<lambda>v. \<bar>v - thr\<bar>)"
  from px have c1: "0 < count_nonzero (map (\<lambda>p. px = p) pixs)"
    by (auto simp: count_nonzero_pos)
  from some have c2: "0 < count_nonzero mask2"
    by (auto simp: count_nonzero_pos mask2_def)
  from d c2 pixel_depth_unfold [where binstat = binstat, OF px mm sm med mask2_def g_def]
  have body:
    "(case bool_index bin_centers mask2 of Inl e \<Rightarrow> Inl e
      | Inr bc \<Rightarrow>
         (case bool_index median_snr mask2 of Inl e \<Rightarrow> Inl e
          | Inr ms \<Rightarrow>
             (case argmin (map g ms) of Inl e \<Rightarrow> Inl e | Inr k \<Rightarrow> Inr (bc ! k)))) = Inr d"
    by simp
  obtain bc where bc: "bool_index bin_centers mask2 = Inr bc"
    using body by (cases "bool_index bin_centers mask2") simp_all
  obtain ms where ms: "bool_index median_snr mask2 = Inr ms"
    using body bc by (cases "bool_index median_snr mask2") simp_all
  obtain k where k: "argmin (map g ms) = Inr k" and dk: "d = bc ! k"
    using body bc ms by (cases "argmin (map g ms)") simp_all
  from c2 have ne2: "mask2 \<noteq> []"
    by (auto simp: count_nonzero_def)
  from bool_index_nth [OF bc ne2] have len: "length median_snr = 30"
    and bc_eq: "bc = map ((!) bin_centers) (filter ((!) mask2) [0..<30])"
    by (simp_all add: mask2_def length_bin_centers)
  define idx where "idx = filter ((!) mask2) [0..<30]"
  from bool_index_nth [OF ms ne2] len have ms_eq: "ms = map ((!) median_snr) idx"
    by (simp add: idx_def)
  have idx_set: "set idx = {i. i < 30 \<and> \<not> isnan (median_snr ! i)}"
    using len by (auto simp: idx_def mask2_def)
  have idx_sorted: "sorted_wrt (<) idx"
    unfolding idx_def by (rule sorted_wrt_filter) (rule sorted_wrt_upt)
  from some obtain v0 where "v0 \<in> set median_snr" "\<not> isnan v0" by blast
  then obtain i0 where "i0 < length median_snr" "median_snr ! i0 = v0"
    unfolding in_set_conv_nth by blast
  with \<open>\<not> isnan v0\<close> len have "i0 \<in> set idx"
    unfolding idx_set by simp
  then have "idx \<noteq> []" by auto
  then have ne: "map g ms \<noteq> []" by (simp add: ms_eq)
  have fin: "\<forall>x\<in>set (map g ms). \<not> isnan x"
  proof
    fix x assume "x \<in> set (map g ms)"
    then obtain i where "i \<in> set idx" "x = g (median_snr ! i)"
      by (auto simp: ms_eq)
    with idx_set show "\<not> isnan x"
      by (cases "median_snr ! i") (auto simp: g_def)
  qed
  from argmin_spec [OF ne fin] k obtain u where
    kl: "k < length idx" and ku: "map g ms ! k = Fin u"
    and mn: "\<forall>j<length idx. \<forall>w. map g ms ! j = Fin w \<longrightarrow> u \<le> w \<and> (j < k \<longrightarrow> u < w)"
    by (auto simp: ms_eq)
  define i where "i = idx ! k"
  from kl idx_set have i30: "i < 30" and inn: "\<not> isnan (median_snr ! i)"
    using nth_mem [OF kl] by (auto simp: i_def)
  then obtain v where v: "median_snr ! i = Fin v"
    by (cases "median_snr ! i") auto
  from ku kl v have u: "u = \<bar>v - thr\<bar>"
    by (simp add: ms_eq g_def i_def)
  have di: "d = bin_centers ! i"
    using dk kl by (simp add: bc_eq idx_def i_def)
  have "\<forall>j<30. \<forall>w. median_snr ! j = Fin w \<longrightarrow>
          \<bar>v - thr\<bar> \<le> \<bar>w - thr\<bar> \<and> (j < i \<longrightarrow> \<bar>v - thr\<bar> < \<bar>w - thr\<bar>)"
  proof (intro allI impI)
    fix j w assume j: "j < 30" and w: "median_snr ! j = Fin w"
    then have "j \<in> set idx" using idx_set by simp
    then obtain k' where k': "k' < length idx" "idx ! k' = j"
      by (auto simp: in_set_conv_nth)
    then have gw: "map g ms ! k' = Fin \<bar>w - thr\<bar>"
      using w by (simp add: ms_eq g_def)
    have "j < i \<Longrightarrow> k' < k"
    proof (rule ccontr)
      assume ji: "j < i" and "\<not> k' < k"
      then have "k \<le> k'" by simp
      have "idx ! k \<le> idx ! k'"
      proof (cases "k = k'")
        case True
        then show ?thesis by simp
      next
        case False
        with \<open>k \<le> k'\<close> have "k < k'" by simp
        with idx_sorted k'(1) have "idx ! k < idx ! k'"
          unfolding sorted_wrt_iff_nth_less by blast
        then show ?thesis by simp
      qed
      with ji k'(2) show False by (simp add: i_def)
    qed
    with mn k'(1) gw u show "\<bar>v - thr\<bar> \<le> \<bar>w - thr\<bar> \<and> (j < i \<longrightarrow> \<bar>v - thr\<bar> < \<bar>w - thr\<bar>)"
      by auto
  qed
  with len i30 v di show ?thesis by blast
qed

lemma pixel_depth_values:
  assumes "pixel_depth binstat pixs mags snr thr px = Inr d"
  shows "d = 0 \<or> d \<in> set bin_centers"
proof (cases "px \<in> set pixs")
  case False
  then have "\<not> 0 < count_nonzero (map (\<lambda>p. px = p) pixs)"
    by (auto simp: count_nonzero_pos)
  with assms show ?thesis by (simp add: pixel_depth_def Let_def)
next
  case True
  from pixel_depth_rows [OF assms True] obtain mags_m snr_m median_snr where
    r: "bool_index mags (map (\<lambda>p. px = p) pixs) = Inr mags_m"
       "bool_index snr (map (\<lambda>p. px = p) pixs) = Inr snr_m"
       "binstat mags_m snr_m nanmedian 30 (22, 28) = Inr median_snr"
    by blast
  show ?thesis
  proof (cases "\<forall>v\<in>set median_snr. isnan v")
    case True
    from pixel_depth_undefined [OF assms \<open>px \<in> set pixs\<close> r True] show ?thesis by simp
  next
    case False
    then have "\<exists>v\<in>set median_snr. \<not> isnan v" by simp
    from pixel_depth_defined [OF assms \<open>px \<in> set pixs\<close> r this]
    obtain i where "i < 30" "d = bin_centers ! i" by blast
    then show ?thesis by (simp add: length_bin_centers)
  qed
qed

lemma pixel_depth_returns:
  assumes mm: "bool_index mags (map (\<lambda>p. px = p) pixs) = Inr mags_m"
    and sm: "bool_index snr (map (\<lambda>p. px = p) pixs) = Inr snr_m"
    and med: "binstat mags_m snr_m nanmedian 30 (22, 28) = Inr median_snr"
    and len: "length median_snr = 30"
  shows "\<exists>d. pixel_depth binstat pixs mags snr thr px = Inr d"
proof (cases "px \<in> set pixs")
  case False
  then have "\<not> 0 < count_nonzero (map (\<lambda>p. px = p) pixs)"
    by (auto simp: count_nonzero_pos)
  then show ?thesis by (simp add: pixel_depth_def)
next
  case True
  define mask2 where "mask2 = map (\<lambda>v. isnan v = False) median_snr"
  define g where "g = fl_map (\<lambda>v. \<bar>v - thr\<bar>)"
  note unfold = pixel_depth_unfold [where binstat = binstat, OF True mm sm med mask2_def g_def]
  show ?thesis
  proof (cases "0 < count_nonzero mask2")
    case False
    with unfold show ?thesis by simp
  next
    case True
    have l2: "length mask2 = 30" by (simp add: mask2_def len)
    then have bc: "bool_index bin_centers mask2 =
        Inr (map fst (filter snd (zip bin_centers mask2)))"
      by (simp add: bool_index_def length_bin_centers)
    from l2 len have ms: "bool_index median_snr mask2 =
        Inr (map fst (filter snd (zip median_snr mask2)))"
      by (simp add: bool_index_def)
    from True obtain i where "i < length mask2" "mask2 ! i"
      by (auto simp: count_nonzero_pos in_set_conv_nth)
    with l2 len have "(median_snr ! i, True) \<in> set (zip median_snr mask2)"
      by (auto simp: in_set_zip intro!: exI [of _ i])
    then have "filter snd (zip median_snr mask2) \<noteq> []"
      unfolding filter_empty_conv by force
    then have "map g (map fst (filter snd (zip median_snr mask2))) \<noteq> []" by simp
    from argmin_returns [OF this]
    obtain k where "argmin (map g (map fst (filter snd (zip median_snr mask2)))) = Inr k"
      by blast
    with unfold True bc ms show ?thesis by simp
  qed
qed

lemma pixel_depth_length_mismatch:
  assumes "px \<in> set pixs" and "length mags \<noteq> length pixs \<or> length snr \<noteq> length pixs"
  shows "isl (pixel_depth binstat pixs mags snr thr px)"
proof -
  from assms(1) have c1: "0 < count_nonzero (map (\<lambda>p. px = p) pixs)"
    by (auto simp: count_nonzero_pos)
  from assms(1) have ne: "map (\<lambda>p. px = p) pixs \<noteq> []" by auto
  show ?thesis
  proof (cases "length mags = length pixs")
    case False
    then have "bool_index mags (map (\<lambda>p. px = p) pixs) = Inl IndexError"
      using ne by (intro bool_index_longer) simp_all
    with c1 show ?thesis by (simp add: pixel_depth_def)
  next
    case True
    with assms(2) have "bool_index snr (map (\<lambda>p. px = p) pixs) = Inl IndexError"
      using ne by (intro bool_index_longer) simp_all
    moreover from True obtain mags_m where "bool_index mags (map (\<lambda>p. px = p) pixs) = Inr mags_m"
      by (simp add: bool_index_same_length)
    ultimately show ?thesis using c1 by (simp add: pixel_depth_def)
  qed
qed

section \<open>Facts about the loop over pixels\<close>

lemma setitem_length: "setitem a i v = Inr b \<Longrightarrow> length b = length a"
  by (auto simp: setitem_def Let_def split: if_splits)

lemma setitem_set: "setitem a i v = Inr b \<Longrightarrow> set b \<subseteq> insert v (set a)"
  by (auto simp: setitem_def Let_def split: if_splits dest: subsetD [OF set_update_subset_insert])

lemma setitem_nonneg:
  "setitem a i v = Inr b \<Longrightarrow> 0 \<le> i \<Longrightarrow> nat i < length a \<and> b = a[nat i := v]"
  by (auto simp: setitem_def Let_def split: if_splits)

lemma pixel_loop_length: "pixel_loop body pxs m0 = Inr m \<Longrightarrow> length m = length m0"
proof (induction pxs arbitrary: m0)
  case Nil
  then show ?case by simp
next
  case (Cons p pxs)
  then show ?case
    by (auto split: sum.splits dest: setitem_length)
qed

lemma pixel_loop_values:
  "pixel_loop body pxs m0 = Inr m \<Longrightarrow> v \<in> set m \<Longrightarrow>
     v \<in> set m0 \<or> (\<exists>p\<in>set pxs. body p = Inr v)"
proof (induction pxs arbitrary: m0)
  case Nil
  then show ?case by simp
next
  case (Cons p pxs)
  from Cons.prems(1) obtain d m1 where d: "body p = Inr d" and m1: "setitem m0 p d = Inr m1"
    and rest: "pixel_loop body pxs m1 = Inr m"
    by (auto split: sum.splits)
  from Cons.IH [OF rest Cons.prems(2)] show ?case
  proof
    assume "v \<in> set m1"
    with setitem_set [OF m1] have "v = d \<or> v \<in> set m0" by auto
    with d show ?thesis by auto
  next
    assume "\<exists>p\<in>set pxs. body p = Inr v"
    then show ?thesis by auto
  qed
qed

lemma pixel_loop_untouched:
  "pixel_loop body pxs m0 = Inr m \<Longrightarrow> \<forall>p\<in>set pxs. 0 \<le> p \<Longrightarrow> i < length m0 \<Longrightarrow>
     int i \<notin> set pxs \<Longrightarrow> m ! i = m0 ! i"
proof (induction pxs arbitrary: m0)
  case Nil
  then show ?case by simp
next
  case (Cons p pxs)
  from Cons.prems(1) obtain d m1 where d: "body p = Inr d" and m1: "setitem m0 p d = Inr m1"
    and rest: "pixel_loop body pxs m1 = Inr m"
    by (auto split: sum.splits)
  from Cons.prems have p: "0 \<le> p" "int i \<noteq> p" by auto
  from setitem_nonneg [OF m1 p(1)] have upd: "m1 = m0[nat p := d]" "length m1 = length m0"
    by auto
  have "m ! i = m1 ! i"
    using Cons.IH [OF rest] Cons.prems upd(2) by auto
  also have "m1 ! i = m0 ! i"
    using p upd(1) by (auto simp: nth_list_update)
  finally show ?case .
qed

lemma pixel_loop_written:
  "pixel_loop body pxs m0 = Inr m \<Longrightarrow> \<forall>p\<in>set pxs. 0 \<le> p \<Longrightarrow> distinct pxs \<Longrightarrow>
     px \<in> set pxs \<Longrightarrow> nat px < length m \<and> body px = Inr (m ! nat px)"
proof (induction pxs arbitrary: m0)
  case Nil
  then show ?case by simp
next
  case (Cons p pxs)
  from Cons.prems(1) obtain d m1 where d: "body p = Inr d" and m1: "setitem m0 p d = Inr m1"
    and rest: "pixel_loop body pxs m1 = Inr m"
    by (auto split: sum.splits)
  from Cons.prems have p: "0 \<le> p" and nonneg: "\<forall>p\<in>set pxs. 0 \<le> p"
    and dist: "distinct pxs" "p \<notin> set pxs" by auto
  from setitem_nonneg [OF m1 p] have upd: "m1 = m0[nat p := d]" "nat p < length m0"
    "length m1 = length m0" by auto
  show ?case
  proof (cases "px = p")
    case True
    have "int (nat p) \<notin> set pxs" using p dist(2) by simp
    from pixel_loop_untouched [OF rest nonneg _ this] upd
    have "m ! nat p = d" by simp
    with True d upd pixel_loop_length [OF rest] show ?thesis by simp
  next
    case False
    with Cons.prems(4) have "px \<in> set pxs" by simp
    from Cons.IH [OF rest nonneg dist(1) this] show ?thesis .
  qed
qed

lemma pixel_loop_first_fails:
  "pxs \<noteq> [] \<Longrightarrow> isl (body (hd pxs)) \<Longrightarrow> isl (pixel_loop body pxs m0)"
  by (cases pxs) (auto split: sum.splits)

lemma pix_nums_length_mismatch:
  "length ra \<noteq> length dec \<Longrightarrow> 1 < length ra \<or> 1 < length dec \<Longrightarrow>
     isl (pix_nums ang2pix nside ra dec)"
  by (auto simp: pix_nums_def good_def logical_or_def logical_not_def bool_index_def)

lemma pix_nums_one_and_none:
  "length ra + length dec = 1 \<Longrightarrow> pix_nums ang2pix nside ra dec = ang2pix nside [] []"
  by (cases ra; cases dec)
    (auto simp: pix_nums_def good_def logical_or_def logical_not_def bool_index_def)

lemma pix_nums_rejected:
  "\<forall>theta phi. isl (ang2pix nside theta phi) \<Longrightarrow> isl (pix_nums ang2pix nside ra dec)"
  by (auto simp: pix_nums_def split: sum.splits)

lemma depth_map_no_pixel:
  "pix_nums ang2pix nside ra dec = Inr [] \<Longrightarrow>
     depth_map_snr ang2pix binstat ra dec mags snr thr nside =
       Inr (replicate (nat (12 * nside ^ 2)) 0)"
  by (simp add: depth_map_snr_def unique_def zeros_def)

lemma depth_map_length:
  "depth_map_snr ang2pix binstat ra dec mags snr thr nside = Inr map_out \<Longrightarrow>
     int (length map_out) = 12 * nside ^ 2"
  by (auto simp: depth_map_snr_def zeros_def split: sum.splits dest!: pixel_loop_length)

lemma depth_map_written:
  assumes "depth_map_snr ang2pix binstat ra dec mags snr thr nside = Inr map_out"
    and "pix_nums ang2pix nside ra dec = Inr pixs"
    and "\<forall>p\<in>set pixs. 0 \<le> p" and "px \<in> set pixs"
  shows "nat px < length map_out \<and>
         pixel_depth binstat pixs mags snr thr px = Inr (map_out ! nat px)"
proof -
  from assms(1,2) have
    "pixel_loop (pixel_depth binstat pixs mags snr thr) (unique pixs)
       (zeros (nat (12 * nside ^ 2))) = Inr map_out"
    by (simp add: depth_map_snr_def)
  from pixel_loop_written [OF this] assms(3,4) show ?thesis
    by (simp add: set_unique distinct_unique)
qed

section \<open>Evaluations at concrete inputs\<close>

text \<open>The definitions unfolded to evaluate the routine at a concrete input.\<close>

lemmas eval_defs = depth_map_snr_def pix_nums_def good_def logical_or_def logical_not_def
  bool_index_def ang2pix_const_def unique_def zeros_def pixel_depth_def count_nonzero_def
  binned_statistic_def in_bin_def nanmedian_def median_def bin_centers_def linspace_def
  argmin_def setitem_def upt_rec numeral_nat

lemma scenario_value:
  "depth_map_snr (ang2pix_const 4) binned_statistic [Fin 10] [Fin 20] [Fin 24] [Fin 10] 10 1 =
     Inr [0, 0, 0, 0, 3499 / 145, 0, 0, 0, 0, 0, 0, 0]"
  by (simp add: eval_defs)

lemma faint_row_value:
  "depth_map_snr (ang2pix_const 4) binned_statistic [Fin 10] [Fin 20] [Fin 22] [Fin 10] 10 1 =
     Inr [0, 0, 0, 0, 111 / 5, 0, 0, 0, 0, 0, 0, 0]"
  by (simp add: eval_defs)

lemma two_bins_value:
  "depth_map_snr (ang2pix_const 4) binned_statistic [Fin 10, Fin 10] [Fin 20, Fin 20]
     [Fin 24, Fin 22] [Fin (19 / 2), Fin 30] 10 1 =
     Inr [0, 0, 0, 0, 3499 / 145, 0, 0, 0, 0, 0, 0, 0]"
  by (simp add: eval_defs)

lemma two_bins_median:
  "binned_statistic [Fin 24, Fin 22] [Fin (19 / 2), Fin 30] nanmedian 30 (22, 28) =
     Inr [Fin 30, NaN, NaN, NaN, NaN, NaN, NaN, NaN, NaN, NaN,
          Fin (19 / 2), NaN, NaN, NaN, NaN, NaN, NaN, NaN, NaN, NaN,
          NaN, NaN, NaN, NaN, NaN, NaN, NaN, NaN, NaN, NaN]"
  by (simp add: eval_defs)

lemma one_row_pix:
  "pix_nums (ang2pix_const 4) 1 [Fin 10] [Fin 20] = Inr [4]"
  by (simp add: eval_defs)

lemma tie_rows_value:
  "depth_map_snr (ang2pix_const 4) binned_statistic [Fin 10, Fin 10, Fin 10]
     [Fin 20, Fin 20, Fin 20] [Fin 24, Fin (241 / 10), Fin 22] [NaN, Fin 9, Fin 11] 10 1 =
     Inr [0, 0, 0, 0, 111 / 5, 0, 0, 0, 0, 0, 0, 0]"
  by (simp add: eval_defs)

lemma tie_rows_median:
  "binned_statistic [Fin 24, Fin (241 / 10), Fin 22] [NaN, Fin 9, Fin 11] nanmedian 30 (22, 28) =
     Inr [Fin 11, NaN, NaN, NaN, NaN, NaN, NaN, NaN, NaN, NaN,
          Fin 9, NaN, NaN, NaN, NaN, NaN, NaN, NaN, NaN, NaN,
          NaN, NaN, NaN, NaN, NaN, NaN, NaN, NaN, NaN, NaN]"
  by (simp add: eval_defs)



section \<open>The size and the values of the map\<close>

text \<open>
  Whatever the arrays, the threshold and nside are, a map that \<open>depth_map_snr\<close> returns has
  exactly 12 * nside^2 entries, and each entry is 0 or one of the 30 entries of the array
  \<open>bin_centers\<close>. This holds for every pixelization and every binning helper.
\<close>

lemma depth_map_entries:
  assumes "depth_map_snr ang2pix binstat ra dec mags snr thr nside = Inr map_out"
  shows "int (length map_out) = 12 * nside ^ 2 \<and> length bin_centers = 30 \<and>
         (\<forall>v\<in>set map_out. v = 0 \<or> v \<in> set bin_centers)"
proof -
  from assms obtain pixs where
    loop: "pixel_loop (pixel_depth binstat pixs mags snr thr) (unique pixs)
             (zeros (nat (12 * nside ^ 2))) = Inr map_out"
    by (auto simp: depth_map_snr_def split: sum.splits)
  have "v = 0 \<or> v \<in> set bin_centers" if "v \<in> set map_out" for v
    using pixel_loop_values [OF loop that]
    by (auto simp: zeros_def dest: pixel_depth_values)
  with depth_map_length [OF assms] length_bin_centers show ?thesis by blast
qed

text \<open>
  C1. Every entry of the map is to be 0 or one of the 30 bin centers. The size is right,
  but the entries of \<open>bin_centers\<close> are not the centers of the bins: a single row of
  magnitude 22.0 and snr 10 gives a map of 12 entries whose populated entry is 111/5, that
  is 22.2, which is neither 0 nor any of the centers 22 + 6/30 * (i + 0.5).
\<close>

theorem entry_neither_zero_nor_bin_center:
  "depth_map_snr (ang2pix_const 4) binned_statistic [Fin 10] [Fin 20] [Fin 22] [Fin 10] 10 1 =
     Inr [0, 0, 0, 0, 111 / 5, 0, 0, 0, 0, 0, 0, 0] \<and>
   length [0, 0, 0, 0, 111 / 5, 0, 0, 0, 0, 0, 0, 0 :: real] = 12 \<and>
   (111 / 5 :: real) \<noteq> 0 \<and>
   (111 / 5 :: real) \<notin> set (map (\<lambda>i. 22 + 6 / 30 * (real i + 1 / 2)) [0..<30])"
  by (simp add: faint_row_value upt_rec numeral_nat)

section \<open>The values of the bin centers\<close>

text \<open>
  C2. The array \<open>bin_centers\<close> runs from 22.2 to 27.8 in steps of 5.6/29, not from 22.1 to
  27.9 in steps of 0.2: at the scenario of the spec, the depth written for the populated
  pixel is 3499/145, which is none of the values 22 + 6/30 * (i + 0.5).
\<close>

theorem depth_not_a_bin_midpoint:
  "bin_centers ! 0 = 111 / 5 \<and> bin_centers ! 1 = 3247 / 145 \<and> bin_centers ! 29 = 139 / 5 \<and>
   depth_map_snr (ang2pix_const 4) binned_statistic [Fin 10] [Fin 20] [Fin 24] [Fin 10] 10 1 =
     Inr [0, 0, 0, 0, 3499 / 145, 0, 0, 0, 0, 0, 0, 0] \<and>
   (3499 / 145 :: real) \<notin> set (map (\<lambda>i. 22 + 6 / 30 * (real i + 1 / 2)) [0..<30])"
  by (simp add: scenario_value nth_bin_centers upt_rec numeral_nat)

section \<open>The row filter\<close>

text \<open>
  C3. The row filter keeps a row exactly when its ra is not NaN or its dec is not NaN: for
  arrays of one length, \<open>good\<close> is that test row by row, and the coordinates handed to the
  pixelization are those of the rows passing it, so only a row with both coordinates NaN
  is left out.
\<close>

theorem good_keeps_row_unless_both_nan:
  assumes "length ra = length dec"
  shows "good ra dec = Inr (map (\<lambda>(r, d). \<not> isnan r \<or> \<not> isnan d) (zip ra dec)) \<and>
         pix_nums ang2pix nside ra dec =
           ang2pix nside
             (map (fl_map (\<lambda>d. pi / 2 - d * pi / 180))
                (map snd (filter (\<lambda>(r, d). \<not> isnan r \<or> \<not> isnan d) (zip ra dec))))
             (map (fl_map (\<lambda>r. r * pi / 180))
                (map fst (filter (\<lambda>(r, d). \<not> isnan r \<or> \<not> isnan d) (zip ra dec))))"
  using assms
  by (simp add: pix_nums_def good_equal_length bool_index_fst bool_index_snd)

theorem good_keeps_row_unless_both_nan_witness:
  "length [Fin 10, NaN, Fin 30, NaN] = length [Fin 20, Fin 5, NaN, NaN] \<and>
   good [Fin 10, NaN, Fin 30, NaN] [Fin 20, Fin 5, NaN, NaN] = Inr [True, True, True, False] \<and>
   pix_nums (ang2pix_const 4) 1 [Fin 10, NaN, Fin 30, NaN] [Fin 20, Fin 5, NaN, NaN] =
     Inr [4, 4, 4]"
  using good_keeps_row_unless_both_nan
    [of "[Fin 10, NaN, Fin 30, NaN]" "[Fin 20, Fin 5, NaN, NaN]" "ang2pix_const 4" 1]
  by (simp add: ang2pix_const_def)

section \<open>The bin that gives the depth\<close>

text \<open>
  Which bin is chosen. In a returned map, take a pixel that holds rows (the pixel indices
  being non-negative, as HEALPix indices are), and let \<open>median_snr\<close> be the per-bin medians
  the binning helper returns for that pixel's rows. If some bin has a median that is not
  NaN, the pixel's depth is the \<open>bin_centers\<close> entry of a bin \<open>i\<close> whose median is defined
  and whose distance to \<open>snr_threshold\<close> is the smallest among the defined medians.
\<close>

lemma depth_is_closest_bin:
  assumes "depth_map_snr ang2pix binstat ra dec mags snr thr nside = Inr map_out"
    and "pix_nums ang2pix nside ra dec = Inr pixs"
    and "\<forall>p\<in>set pixs. 0 \<le> p" and "px \<in> set pixs"
    and "bool_index mags (map (\<lambda>p. px = p) pixs) = Inr mags_m"
    and "bool_index snr (map (\<lambda>p. px = p) pixs) = Inr snr_m"
    and "binstat mags_m snr_m nanmedian 30 (22, 28) = Inr median_snr"
    and "\<exists>v\<in>set median_snr. \<not> isnan v"
  shows "\<exists>i<30. \<exists>v. median_snr ! i = Fin v \<and> map_out ! nat px = bin_centers ! i \<and>
           (\<forall>j<30. \<forall>w. median_snr ! j = Fin w \<longrightarrow> \<bar>v - thr\<bar> \<le> \<bar>w - thr\<bar>)"
proof -
  from depth_map_written [OF assms(1-4)]
  have d: "pixel_depth binstat pixs mags snr thr px = Inr (map_out ! nat px)" by simp
  from pixel_depth_defined [where binstat = binstat, OF d assms(4-8)]
  show ?thesis by blast
qed

text \<open>
  Ties go to the lowest index. With the pixel and its medians as above, let bin \<open>i\<close> have a
  defined median that is as close to \<open>snr_threshold\<close> as any defined median, every bin of
  lower index with a defined median being strictly farther. Then the pixel's depth is the
  \<open>bin_centers\<close> entry of bin \<open>i\<close>, which is smaller than the entry of every bin of higher
  index.
\<close>

lemma tie_goes_to_lowest_bin:
  assumes "depth_map_snr ang2pix binstat ra dec mags snr thr nside = Inr map_out"
    and "pix_nums ang2pix nside ra dec = Inr pixs"
    and "\<forall>p\<in>set pixs. 0 \<le> p" and "px \<in> set pixs"
    and "bool_index mags (map (\<lambda>p. px = p) pixs) = Inr mags_m"
    and "bool_index snr (map (\<lambda>p. px = p) pixs) = Inr snr_m"
    and "binstat mags_m snr_m nanmedian 30 (22, 28) = Inr median_snr"
    and i: "i < length median_snr" and v: "median_snr ! i = Fin v"
    and closest: "\<forall>j<length median_snr. \<forall>w. median_snr ! j = Fin w \<longrightarrow> \<bar>v - thr\<bar> \<le> \<bar>w - thr\<bar>"
    and lowest: "\<forall>j<i. \<forall>w. median_snr ! j = Fin w \<longrightarrow> \<bar>v - thr\<bar> < \<bar>w - thr\<bar>"
  shows "length median_snr = 30 \<and> map_out ! nat px = bin_centers ! i \<and>
         (\<forall>j<30. i < j \<longrightarrow> bin_centers ! i < bin_centers ! j)"
proof -
  from depth_map_written [OF assms(1-4)]
  have d: "pixel_depth binstat pixs mags snr thr px = Inr (map_out ! nat px)" by simp
  from i v have "Fin v \<in> set median_snr" by (metis nth_mem)
  then have some: "\<exists>v\<in>set median_snr. \<not> isnan v" by force
  from pixel_depth_defined [where binstat = binstat and thr = thr, OF d assms(4-7) some]
  obtain i0 v0 where len: "length median_snr = 30" and i0: "i0 < 30" "median_snr ! i0 = Fin v0"
    and depth: "map_out ! nat px = bin_centers ! i0"
    and mn: "\<forall>j<30. \<forall>w. median_snr ! j = Fin w \<longrightarrow>
               \<bar>v0 - thr\<bar> \<le> \<bar>w - thr\<bar> \<and> (j < i0 \<longrightarrow> \<bar>v0 - thr\<bar> < \<bar>w - thr\<bar>)"
    by blast
  have "i0 = i"
  proof (rule ccontr)
    assume "i0 \<noteq> i"
    then consider "i0 < i" | "i < i0" by linarith
    then show False
    proof cases
      case 1
      with lowest i0(2) have "\<bar>v - thr\<bar> < \<bar>v0 - thr\<bar>" by blast
      moreover from mn i v len have "\<bar>v0 - thr\<bar> \<le> \<bar>v - thr\<bar>" by simp
      ultimately show False by simp
    next
      case 2
      with mn i v len have "\<bar>v0 - thr\<bar> < \<bar>v - thr\<bar>" by simp
      moreover from closest i0 len have "\<bar>v - thr\<bar> \<le> \<bar>v0 - thr\<bar>" by simp
      ultimately show False by simp
    qed
  qed
  with depth len show ?thesis by (simp add: bin_centers_mono)
qed

text \<open>
  C4. The depth of a pixel is to be the center magnitude of the bin whose median snr is
  closest to the threshold. The bin is chosen as the claim says, but the value written is
  not its center: with rows of magnitudes 24.0 and 22.0 and snr 9.5 and 30 in one pixel,
  the medians are 30 in bin 0 and 9.5 in bin 10, bin 10 is the closest to the threshold
  10, and the depth is 3499/145, about 24.131, not the center 24.1 of bin 10.
\<close>

theorem closest_bin_depth_not_its_center:
  "binned_statistic [Fin 24, Fin 22] [Fin (19 / 2), Fin 30] nanmedian 30 (22, 28) =
     Inr [Fin 30, NaN, NaN, NaN, NaN, NaN, NaN, NaN, NaN, NaN,
          Fin (19 / 2), NaN, NaN, NaN, NaN, NaN, NaN, NaN, NaN, NaN,
          NaN, NaN, NaN, NaN, NaN, NaN, NaN, NaN, NaN, NaN] \<and>
   \<bar>19 / 2 - 10\<bar> < \<bar>30 - (10 :: real)\<bar> \<and>
   depth_map_snr (ang2pix_const 4) binned_statistic [Fin 10, Fin 10] [Fin 20, Fin 20]
     [Fin 24, Fin 22] [Fin (19 / 2), Fin 30] 10 1 =
     Inr [0, 0, 0, 0, 3499 / 145, 0, 0, 0, 0, 0, 0, 0] \<and>
   bin_centers ! 10 = 3499 / 145 \<and>
   (3499 / 145 :: real) \<noteq> 22 + 6 / 30 * (10 + 1 / 2)"
  by (simp add: two_bins_median two_bins_value nth_bin_centers)

text \<open>
  C10. On a tie the depth is to be the center of the lowest-index bin among the closest.
  The lowest index is chosen, but the value written is not its center: with medians 11 in
  bin 0 and 9 in bin 10, both at distance 1 of the threshold 10, the depth is the entry of
  bin 0, 111/5, that is 22.2, which is not the center 22.1 of bin 0 and not even a
  magnitude of bin 0.
\<close>

theorem tie_depth_not_the_center:
  "binned_statistic [Fin 24, Fin (241 / 10), Fin 22] [NaN, Fin 9, Fin 11] nanmedian 30 (22, 28) =
     Inr [Fin 11, NaN, NaN, NaN, NaN, NaN, NaN, NaN, NaN, NaN,
          Fin 9, NaN, NaN, NaN, NaN, NaN, NaN, NaN, NaN, NaN,
          NaN, NaN, NaN, NaN, NaN, NaN, NaN, NaN, NaN, NaN] \<and>
   \<bar>11 - 10\<bar> = \<bar>9 - (10 :: real)\<bar> \<and>
   depth_map_snr (ang2pix_const 4) binned_statistic [Fin 10, Fin 10, Fin 10]
     [Fin 20, Fin 20, Fin 20] [Fin 24, Fin (241 / 10), Fin 22] [NaN, Fin 9, Fin 11] 10 1 =
     Inr [0, 0, 0, 0, 111 / 5, 0, 0, 0, 0, 0, 0, 0] \<and>
   bin_centers ! 0 = 111 / 5 \<and>
   (111 / 5 :: real) \<noteq> 22 + 6 / 30 * (0 + 1 / 2) \<and>
   \<not> in_bin (22, 28) 30 0 (Fin (111 / 5))"
  by (simp add: tie_rows_median tie_rows_value nth_bin_centers in_bin_def)

section \<open>Failures\<close>

text \<open>
  C5, as the code has it. \<open>depth_map_snr\<close> checks neither the lengths nor nside itself,
  and has no ShapeMismatch or InvalidParameter of its own: its failures are those of numpy
  and of the pixelization, each with an error and no map. The call fails when ra and dec
  differ in length and one of them has more than one element; when at least one row is
  pixelized and mags or snr has not the length of the array of pixels; and when nside is
  not positive, the pixelization rejecting such an nside. For ra and dec of one length an
  error of the pixelization is the error of the call. When no row is pixelized, mags and
  snr of any lengths are accepted and the map of 12 * nside^2 zeros is returned; that is
  so when one of ra and dec is empty and the other has one element, the pixelization
  giving no pixel for no angle.
\<close>

theorem failures_of_depth_map_snr:
  "(length ra \<noteq> length dec \<longrightarrow> 1 < length ra \<or> 1 < length dec \<longrightarrow>
      isl (depth_map_snr ang2pix binstat ra dec mags snr thr nside)) \<and>
   (pix_nums ang2pix nside ra dec = Inr pixs \<longrightarrow> pixs \<noteq> [] \<longrightarrow>
      length mags \<noteq> length pixs \<or> length snr \<noteq> length pixs \<longrightarrow>
      isl (depth_map_snr ang2pix binstat ra dec mags snr thr nside)) \<and>
   (nside \<le> 0 \<longrightarrow> (\<forall>n theta phi. n \<le> 0 \<longrightarrow> isl (ang2pix n theta phi)) \<longrightarrow>
      isl (depth_map_snr ang2pix binstat ra dec mags snr thr nside)) \<and>
   (length ra = length dec \<longrightarrow>
      ang2pix nside
        (map (fl_map (\<lambda>d. pi / 2 - d * pi / 180))
           (map snd (filter (\<lambda>(r, d). \<not> isnan r \<or> \<not> isnan d) (zip ra dec))))
        (map (fl_map (\<lambda>r. r * pi / 180))
           (map fst (filter (\<lambda>(r, d). \<not> isnan r \<or> \<not> isnan d) (zip ra dec)))) = Inl e \<longrightarrow>
      depth_map_snr ang2pix binstat ra dec mags snr thr nside = Inl e) \<and>
   (pix_nums ang2pix nside ra dec = Inr [] \<longrightarrow>
      depth_map_snr ang2pix binstat ra dec mags snr thr nside =
        Inr (replicate (nat (12 * nside ^ 2)) 0)) \<and>
   (length ra + length dec = 1 \<longrightarrow> ang2pix nside [] [] = Inr [] \<longrightarrow>
      depth_map_snr ang2pix binstat ra dec mags snr thr nside =
        Inr (replicate (nat (12 * nside ^ 2)) 0))"
proof (intro conjI impI)
  assume "length ra \<noteq> length dec" and "1 < length ra \<or> 1 < length dec"
  from pix_nums_length_mismatch [OF this, of ang2pix nside]
  show "isl (depth_map_snr ang2pix binstat ra dec mags snr thr nside)"
    by (cases "pix_nums ang2pix nside ra dec") (simp_all add: depth_map_snr_def)
next
  assume pixs: "pix_nums ang2pix nside ra dec = Inr pixs" and ne: "pixs \<noteq> []"
    and len: "length mags \<noteq> length pixs \<or> length snr \<noteq> length pixs"
  from ne have une: "unique pixs \<noteq> []"
    by (metis set_unique set_empty)
  then have "hd (unique pixs) \<in> set pixs"
    by (metis hd_in_set set_unique)
  from pixel_depth_length_mismatch [OF this len]
  have "isl (pixel_depth binstat pixs mags snr thr (hd (unique pixs)))" .
  from pixel_loop_first_fails [OF une, of "pixel_depth binstat pixs mags snr thr", OF this]
  show "isl (depth_map_snr ang2pix binstat ra dec mags snr thr nside)"
    by (simp add: depth_map_snr_def pixs)
next
  assume "nside \<le> 0" and "\<forall>n theta phi. n \<le> 0 \<longrightarrow> isl (ang2pix n theta phi)"
  then have "\<forall>theta phi. isl (ang2pix nside theta phi)" by blast
  from pix_nums_rejected [where ang2pix = ang2pix and nside = nside, OF this, of ra dec]
  show "isl (depth_map_snr ang2pix binstat ra dec mags snr thr nside)"
    by (cases "pix_nums ang2pix nside ra dec") (simp_all add: depth_map_snr_def)
next
  assume len: "length ra = length dec"
    and "ang2pix nside
        (map (fl_map (\<lambda>d. pi / 2 - d * pi / 180))
           (map snd (filter (\<lambda>(r, d). \<not> isnan r \<or> \<not> isnan d) (zip ra dec))))
        (map (fl_map (\<lambda>r. r * pi / 180))
           (map fst (filter (\<lambda>(r, d). \<not> isnan r \<or> \<not> isnan d) (zip ra dec)))) = Inl e"
  then have "pix_nums ang2pix nside ra dec = Inl e"
    by (simp only: pix_nums_def good_equal_length [OF len] bool_index_fst [OF len]
        bool_index_snd [OF len] sum.case)
  then show "depth_map_snr ang2pix binstat ra dec mags snr thr nside = Inl e"
    by (simp add: depth_map_snr_def)
next
  assume "pix_nums ang2pix nside ra dec = Inr []"
  then show "depth_map_snr ang2pix binstat ra dec mags snr thr nside =
      Inr (replicate (nat (12 * nside ^ 2)) 0)"
    by (rule depth_map_no_pixel)
next
  assume "length ra + length dec = 1" and "ang2pix nside [] [] = Inr []"
  then have "pix_nums ang2pix nside ra dec = Inr []"
    by (simp add: pix_nums_one_and_none)
  then show "depth_map_snr ang2pix binstat ra dec mags snr thr nside =
      Inr (replicate (nat (12 * nside ^ 2)) 0)"
    by (rule depth_map_no_pixel)
qed

theorem failures_of_depth_map_snr_witness:
  "length [Fin 10, Fin 11] \<noteq> length [Fin 20] \<and>
   isl (depth_map_snr (ang2pix_const 4) binned_statistic [Fin 10, Fin 11] [Fin 20] [Fin 24]
          [Fin 10] 10 1) \<and>
   pix_nums (ang2pix_const 4) 1 [Fin 10] [Fin 20] = Inr [4] \<and>
   isl (depth_map_snr (ang2pix_const 4) binned_statistic [Fin 10] [Fin 20] [Fin 24, Fin 25]
          [Fin 10] 10 1) \<and>
   isl (depth_map_snr (ang2pix_const 4) binned_statistic [Fin 10] [Fin 20] [Fin 24]
          [Fin 10] 10 0) \<and>
   depth_map_snr (ang2pix_const 4) binned_statistic [Fin 10] [Fin 20] [Fin 24] [Fin 10] 10 0 =
     Inl ValueError \<and>
   pix_nums (ang2pix_const 4) 1 [] [] = Inr [] \<and>
   depth_map_snr (ang2pix_const 4) binned_statistic [] [] [Fin 24, Fin 25] [Fin 10] 10 1 =
     Inr (replicate 12 0) \<and>
   length [Fin 10] + length ([] :: fl list) = 1 \<and>
   depth_map_snr (ang2pix_const 4) binned_statistic [Fin 10] [] [Fin 24] [Fin 10] 10 1 =
     Inr (replicate 12 0)"
proof -
  have rejects: "\<forall>n theta phi. n \<le> 0 \<longrightarrow> isl (ang2pix_const 4 n theta phi)"
    by (simp add: ang2pix_const_def)
  have none: "ang2pix_const 4 1 [] [] = Inr []"
    by (simp add: ang2pix_const_def)
  have no_pix: "pix_nums (ang2pix_const 4) 1 [] [] = Inr []"
    by (simp add: eval_defs)
  from
    failures_of_depth_map_snr [of "[Fin 10, Fin 11]" "[Fin 20]" "ang2pix_const 4"
      binned_statistic "[Fin 24]" "[Fin 10]" 10 1]
    failures_of_depth_map_snr [of "[Fin 10]" "[Fin 20]" "ang2pix_const 4"
      binned_statistic "[Fin 24, Fin 25]" "[Fin 10]" 10 1 "[4]"]
    failures_of_depth_map_snr [of "[Fin 10]" "[Fin 20]" "ang2pix_const 4"
      binned_statistic "[Fin 24]" "[Fin 10]" 10 0 _ ValueError]
    failures_of_depth_map_snr [of "[]" "[]" "ang2pix_const 4"
      binned_statistic "[Fin 24, Fin 25]" "[Fin 10]" 10 1]
    failures_of_depth_map_snr [of "[Fin 10]" "[]" "ang2pix_const 4"
      binned_statistic "[Fin 24]" "[Fin 10]" 10 1]
    one_row_pix rejects none no_pix
  show ?thesis by (simp add: ang2pix_const_def numeral_nat)
qed

text \<open>
  The claim as the spec states it fails. With no row to pixelize, mags and snr of
  different lengths are accepted and the map of zeros is returned; and ra of one element
  with an empty dec is accepted too, the empty array \<open>good\<close> selecting nothing of either.
\<close>

theorem mismatched_lengths_accepted:
  "length [Fin 24] \<noteq> length ([] :: fl list) \<and>
   depth_map_snr (ang2pix_const 4) binned_statistic [] [] [Fin 24] [] 10 1 =
     Inr [0, 0, 0, 0, 0, 0, 0, 0, 0, 0, 0, 0] \<and>
   length [Fin 10] \<noteq> length ([] :: fl list) \<and>
   depth_map_snr (ang2pix_const 4) binned_statistic [Fin 10] [] [Fin 24] [Fin 10] 10 1 =
     Inr [0, 0, 0, 0, 0, 0, 0, 0, 0, 0, 0, 0]"
  by (simp add: eval_defs)

section \<open>A single row\<close>

text \<open>
  C6, as the code has it. A single row with a magnitude in bin \<open>i\<close> of the 30 bins over
  [22, 28) and an snr that is not NaN, in a pixel \<open>p\<close> of the map, gives the map whose
  entry \<open>p\<close> is the \<open>bin_centers\<close> entry of bin \<open>i\<close> and whose other entries are 0. For
  the row of magnitude 24.0 that bin is bin 10, the bin from 24.0 to 24.2, not bin 9.
\<close>

theorem single_row_depth:
  assumes pix: "pix_nums ang2pix nside [r] [d] = Inr [p]"
    and p: "0 \<le> p" "p < 12 * nside ^ 2"
    and i: "i < 30" and bin: "in_bin (22, 28) 30 i (Fin m)"
  shows "depth_map_snr ang2pix binned_statistic [r] [d] [Fin m] [Fin s] thr nside =
           Inr ((replicate (nat (12 * nside ^ 2)) 0)[nat p := bin_centers ! i])"
proof -
  define med where "med = map (\<lambda>j. if in_bin (22, 28) 30 j (Fin m) then Fin s else NaN) [0..<30]"
  have mm: "bool_index [Fin m] (map (\<lambda>q. p = q) [p]) = Inr [Fin m]"
    and sm: "bool_index [Fin s] (map (\<lambda>q. p = q) [p]) = Inr [Fin s]"
    by (simp_all add: bool_index_def)
  have bs: "binned_statistic [Fin m] [Fin s] nanmedian 30 (22, 28) = Inr med"
    unfolding med_def by (rule binned_statistic_single)
  have len: "length med = 30" by (simp add: med_def)
  have mem: "p \<in> set [p]" by simp
  from i bin have medi: "med ! i = Fin s" by (simp add: med_def)
  with i len have some: "\<exists>v\<in>set med. \<not> isnan v"
    by (metis isnan.simps(2) nth_mem)
  from pixel_depth_returns [where binstat = binned_statistic, OF mm sm bs len]
  obtain d0 where d0: "pixel_depth binned_statistic [p] [Fin m] [Fin s] thr p = Inr d0"
    by blast
  from pixel_depth_defined [where binstat = binned_statistic, OF d0 mem mm sm bs some]
  obtain i0 v where i0: "i0 < 30" "med ! i0 = Fin v" "d0 = bin_centers ! i0"
    by blast
  from i0(1,2) have "in_bin (22, 28) 30 i0 (Fin m)"
    by (simp add: med_def split: if_splits)
  from in_bin_unique [OF this bin] have "i0 = i" .
  with d0 i0(3) have body: "pixel_depth binned_statistic [p] [Fin m] [Fin s] thr p =
      Inr (bin_centers ! i)" by simp
  from p have set: "setitem (zeros (nat (12 * nside ^ 2))) p (bin_centers ! i) =
      Inr ((replicate (nat (12 * nside ^ 2)) 0)[nat p := bin_centers ! i])"
    by (simp add: setitem_def zeros_def)
  show ?thesis
    by (simp add: depth_map_snr_def pix unique_def body set)
qed

theorem single_row_depth_witness:
  "pix_nums (ang2pix_const 4) 1 [Fin 10] [Fin 20] = Inr [4] \<and>
   in_bin (22, 28) 30 10 (Fin 24) \<and>
   depth_map_snr (ang2pix_const 4) binned_statistic [Fin 10] [Fin 20] [Fin 24] [Fin 10] 10 1 =
     Inr [0, 0, 0, 0, bin_centers ! 10, 0, 0, 0, 0, 0, 0, 0]"
proof -
  have bin: "in_bin (22, 28) 30 10 (Fin 24)" by (simp add: in_bin_def)
  from single_row_depth [of "ang2pix_const 4" 1 "Fin 10" "Fin 20" 4 10 24 10 10,
      OF one_row_pix _ _ _ bin] one_row_pix bin
  show ?thesis by (simp add: numeral_nat)
qed

text \<open>
  The claim as the spec states it fails at its own scenario: the depth of the populated
  pixel is not the entry of bin 9, which does not hold the magnitude 24.0; it is not the
  value 22 + 6/30 * (9 + 0.5) either; and the entry of bin 9 is nearer to 24.0 than the
  depth is, so the depth is not the entry of \<open>bin_centers\<close> nearest to 24.0.
\<close>

theorem scenario_depth_not_bin_nine:
  "depth_map_snr (ang2pix_const 4) binned_statistic [Fin 10] [Fin 20] [Fin 24] [Fin 10] 10 1 =
     Inr [0, 0, 0, 0, 3499 / 145, 0, 0, 0, 0, 0, 0, 0] \<and>
   \<not> in_bin (22, 28) 30 9 (Fin 24) \<and>
   (3499 / 145 :: real) \<noteq> bin_centers ! 9 \<and>
   (3499 / 145 :: real) \<noteq> 22 + 6 / 30 * (9 + 1 / 2) \<and>
   \<bar>bin_centers ! 9 - 24\<bar> < \<bar>3499 / 145 - (24 :: real)\<bar>"
  by (simp add: scenario_value in_bin_def nth_bin_centers)

section \<open>Rows with NaN snr\<close>



section \<open>No row at all\<close>

text \<open>
  C8. With four empty arrays, and a pixelization that returns the empty array of pixels
  for the empty arrays of angles, the call does not fail: it returns the map of
  12 * nside^2 entries that are all 0.
\<close>

theorem empty_input_all_zero:
  assumes "ang2pix nside [] [] = Inr []"
  shows "depth_map_snr ang2pix binstat [] [] [] [] thr nside =
           Inr (replicate (nat (12 * nside ^ 2)) 0)"
  using assms
  by (simp add: depth_map_snr_def pix_nums_def good_def logical_or_def logical_not_def
      bool_index_def unique_def zeros_def)

theorem empty_input_all_zero_witness:
  "ang2pix_const 4 1 [] [] = Inr [] \<and>
   depth_map_snr (ang2pix_const 4) binned_statistic [] [] [] [] 10 1 =
     Inr [0, 0, 0, 0, 0, 0, 0, 0, 0, 0, 0, 0]"
proof -
  have h: "ang2pix_const 4 1 [] [] = Inr []" by (simp add: ang2pix_const_def)
  from empty_input_all_zero [of "ang2pix_const 4" 1 binned_statistic 10] h show ?thesis
    by (simp add: numeral_nat)
qed

end
